theory Spec2Isabelle
  imports Main "HOL-Library.Word"
begin

section \<open>JavaScript strings\<close>

text \<open>
  A JavaScript string is a sequence of UTF-16 code units. The string operations the
  extension uses (\<^verbatim>\<open>trim\<close>, \<^verbatim>\<open>startsWith\<close>, \<^verbatim>\<open>slice\<close>,
  \<^verbatim>\<open>split\<close>, \<^verbatim>\<open>join\<close>) all work on code units.
  \<open>js\<close> writes an ASCII literal as such a string.
\<close>

type_synonym jsstring = "16 word list"

definition js :: "string \<Rightarrow> jsstring" where
  "js s = map (\<lambda>c. of_nat (of_char c)) s"

definition COLON :: "16 word" where
  "COLON = 0x3A"

definition DOT :: "16 word" where
  "DOT = 0x2E"

text \<open>
  \<^verbatim>\<open>String.prototype.trim\<close> removes the code points of WhiteSpace and LineTerminator
  from both ends: TAB, LF, VT, FF, CR, SP, NBSP, the other space separators, LS, PS and
  the byte order mark. All of them are single code units.
\<close>

definition isWhiteSpace :: "16 word \<Rightarrow> bool" where
  "isWhiteSpace c \<longleftrightarrow>
     c \<in> {0x9, 0xA, 0xB, 0xC, 0xD, 0x20, 0xA0, 0x1680, 0x2028, 0x2029, 0x202F, 0x205F,
          0x3000, 0xFEFF}
     \<or> (0x2000 \<le> c \<and> c \<le> 0x200A)"

definition trim :: "jsstring \<Rightarrow> jsstring" where
  "trim s = rev (dropWhile isWhiteSpace (rev (dropWhile isWhiteSpace s)))"

definition startsWith :: "jsstring \<Rightarrow> jsstring \<Rightarrow> bool" where
  "startsWith s p \<longleftrightarrow> take (length p) s = p"

text \<open>
  \<^verbatim>\<open>s.split(c)\<close> for a separator of one code unit: the pieces between the
  separators, at least one piece. \<^verbatim>\<open>ps.join(c)\<close> puts the separator back.
\<close>

fun splitOn :: "'a \<Rightarrow> 'a list \<Rightarrow> 'a list list" where
  "splitOn c [] = [[]]"
| "splitOn c (x # xs) =
     (if x = c then [] # splitOn c xs
      else (case splitOn c xs of p # ps \<Rightarrow> (x # p) # ps | [] \<Rightarrow> [[x]]))"

fun joinWith :: "'a \<Rightarrow> 'a list list \<Rightarrow> 'a list" where
  "joinWith c [] = []"
| "joinWith c [p] = p"
| "joinWith c (p # q # ps) = p @ c # joinWith c (q # ps)"

section \<open>JavaScript values, as far as the extension looks at them\<close>

text \<open>
  \<^verbatim>\<open>executeAction\<close> walks the API object an extension exports. Of a value it
  observes whether it is \<^verbatim>\<open>null\<close> or \<^verbatim>\<open>undefined\<close>, whether it is
  truthy, whether \<^verbatim>\<open>typeof\<close> gives \<^verbatim>\<open>'function'\<close>, and what reading a
  property gives. The property list of a value holds every property that can be read from
  it, inherited ones included; reading any other key gives \<^verbatim>\<open>undefined\<close>.
  A \<open>Primitive\<close> is a boolean, number, string, bigint or symbol with its truthiness.
  A \<open>Function\<close> carries a number that identifies it. Getters that throw are not modelled.
\<close>

datatype jsval =
    Undefined
  | Null
  | Primitive bool "(jsstring \<times> jsval) list"
  | Object "(jsstring \<times> jsval) list"
  | Function nat "(jsstring \<times> jsval) list"

fun properties :: "jsval \<Rightarrow> (jsstring \<times> jsval) list" where
  "properties Undefined = []"
| "properties Null = []"
| "properties (Primitive b ps) = ps"
| "properties (Object ps) = ps"
| "properties (Function f ps) = ps"

fun nullish :: "jsval \<Rightarrow> bool" where
  "nullish Undefined = True"
| "nullish Null = True"
| "nullish (Primitive b ps) = False"
| "nullish (Object ps) = False"
| "nullish (Function f ps) = False"

fun truthy :: "jsval \<Rightarrow> bool" where
  "truthy Undefined = False"
| "truthy Null = False"
| "truthy (Primitive b ps) = b"
| "truthy (Object ps) = True"
| "truthy (Function f ps) = True"

fun isFunction :: "jsval \<Rightarrow> bool" where
  "isFunction (Function f ps) = True"
| "isFunction Undefined = False"
| "isFunction Null = False"
| "isFunction (Primitive b ps) = False"
| "isFunction (Object ps) = False"

text \<open>\<^verbatim>\<open>v[k]\<close> on a value that is neither null nor undefined.\<close>

definition getProp :: "jsval \<Rightarrow> jsstring \<Rightarrow> jsval" where
  "getProp v k = (case map_of (properties v) k of None \<Rightarrow> Undefined | Some w \<Rightarrow> w)"

text \<open>\<^verbatim>\<open>v?.[k]\<close>: \<^verbatim>\<open>undefined\<close> when \<open>v\<close> is null or undefined.\<close>

definition optGet :: "jsval \<Rightarrow> jsstring \<Rightarrow> jsval" where
  "optGet v k = (if nullish v then Undefined else getProp v k)"

section \<open>The host: extensions, commands, and what the extension does to them\<close>

text \<open>
  The errors \<^verbatim>\<open>executeAction\<close> rejects with: the four it constructs itself, the
  TypeError of reading a property of null or undefined, and an error that comes from the
  host (a failed activation, a method or command that throws or rejects).
\<close>

datatype error =
    InvalidSyntax jsstring
  | ExtensionNotFound jsstring
  | ApiPathNotFound jsstring jsstring
  | NotAFunction jsstring
  | TypeError
  | HostError string

datatype promise = Resolved | Rejected error

text \<open>What awaiting \<^verbatim>\<open>extension.activate()\<close> gives for an installed extension.\<close>

datatype activation = ActivationFailed string | Exports jsval

record host =
  getExtension :: "jsstring \<Rightarrow> activation option"
  methodCall :: "nat \<Rightarrow> jsval \<Rightarrow> string option"
  commandRun :: "jsstring \<Rightarrow> string option"

datatype phase = OnStart | OnEnd

datatype message = InvalidRegexPattern jsstring | FailedToExecute jsstring

text \<open>
  The observable operations, in the order they are started. \<open>ExecuteAction a ph\<close> is the
  call \<^verbatim>\<open>executeAction(a, ph)\<close> by a handler; \<open>ActivateExtension\<close>,
  \<open>CallMethod\<close> (the function and its \<^verbatim>\<open>this\<close>) and \<open>ExecuteCommand\<close> are
  what \<^verbatim>\<open>executeAction\<close> asks of the host. Console output is not modelled.
\<close>

datatype effect =
    ExecuteAction jsstring phase
  | ActivateExtension jsstring
  | CallMethod nat jsval
  | ExecuteCommand jsstring
  | ShowTemporaryNotification phase jsstring
  | ShowErrorMessage message

definition settle :: "string option \<Rightarrow> promise" where
  "settle r = (case r of None \<Rightarrow> Resolved | Some e \<Rightarrow> Rejected (HostError e))"

section \<open>executeAction\<close>

text \<open>
  The loop over the intermediate segments of the API path:
  \<^verbatim>\<open>for (let i = 0; i < pathParts.length - 1; i++) { target = target?.[pathParts[i]]; if (!target) throw ... }\<close>
\<close>

function walk :: "jsstring \<Rightarrow> jsstring list \<Rightarrow> nat \<Rightarrow> jsval \<Rightarrow> error + jsval" where
  "walk apiPath pathParts i target =
     (if i < length pathParts - 1 then
        (let target' = optGet target (pathParts ! i) in
         if \<not> truthy target'
         then Inl (ApiPathNotFound apiPath (joinWith DOT (take (i + 1) pathParts)))
         else walk apiPath pathParts (i + 1) target')
      else Inr target)"
  by pat_completeness auto
termination
  by (relation "measure (\<lambda>(apiPath, pathParts, i, target). length pathParts - 1 - i)") auto

declare walk.simps [simp del]

text \<open>
  The part of \<^verbatim>\<open>executeAction\<close> after \<^verbatim>\<open>await extension.activate()\<close>
  has given the exported API: the walk, the read of the last segment on the target (a
  TypeError when the target is null or undefined), the \<^verbatim>\<open>typeof\<close> check and
  \<^verbatim>\<open>method.call(target)\<close>.
\<close>

definition callApi :: "host \<Rightarrow> jsstring \<Rightarrow> jsstring \<Rightarrow> jsval \<Rightarrow> effect list \<times> promise" where
  "callApi H extensionId apiPath api =
     (let pathParts = splitOn DOT apiPath in
      case walk apiPath pathParts 0 api of
        Inl e \<Rightarrow> ([ActivateExtension extensionId], Rejected e)
      | Inr target \<Rightarrow>
          if nullish target
          then ([ActivateExtension extensionId], Rejected TypeError)
          else
            (case getProp target (last pathParts) of
               Function f ps \<Rightarrow>
                 ([ActivateExtension extensionId, CallMethod f target],
                  settle (methodCall H f target))
             | _ \<Rightarrow> ([ActivateExtension extensionId], Rejected (NotAFunction apiPath))))"

definition executeAction :: "host \<Rightarrow> jsstring \<Rightarrow> phase \<Rightarrow> effect list \<times> promise" where
  "executeAction H action ph =
     (if startsWith action (js ''ext:'') then
        (let parts = splitOn COLON (drop 4 action) in
         if length parts < 2 then ([], Rejected (InvalidSyntax action))
         else
           (let extensionId = hd parts;
                apiPath = joinWith COLON (tl parts) in
            case getExtension H extensionId of
              None \<Rightarrow> ([], Rejected (ExtensionNotFound extensionId))
            | Some (ActivationFailed e) \<Rightarrow>
                ([ActivateExtension extensionId], Rejected (HostError e))
            | Some (Exports api) \<Rightarrow> callApi H extensionId apiPath api))
      else ([ExecuteCommand action], settle (commandRun H action)))"

section \<open>Configuration, regular expressions, executions\<close>

record TriggerConfig =
  pattern :: jsstring
  onStart :: "jsstring option"
  onEnd :: "jsstring option"
  description :: "jsstring option"

text \<open>
  What \<^verbatim>\<open>getConfiguration('terminalCommandTrigger')\<close> gives when a handler reads
  it: the handlers read it anew at every event.
\<close>

record settings =
  triggers :: "TriggerConfig list"
  showNotification :: bool

text \<open>
  The regular expression engine is the host's. \<open>newRegExp\<close> is
  \<^verbatim>\<open>new RegExp(pattern)\<close>, \<open>None\<close> when it throws a SyntaxError;
  \<open>test\<close> is \<^verbatim>\<open>regex.test(s)\<close> (no flags, so it keeps no state);
  \<open>toString\<close> is \<^verbatim>\<open>regex.toString()\<close>.
\<close>

record 'r engine =
  newRegExp :: "jsstring \<Rightarrow> 'r option"
  test :: "'r \<Rightarrow> jsstring \<Rightarrow> bool"
  toString :: "'r \<Rightarrow> jsstring"

text \<open>
  A \<^verbatim>\<open>TerminalShellExecution\<close> object: the map of active executions is keyed by
  the object's identity, \<open>ident\<close>.
\<close>

record execution =
  ident :: nat
  commandLine :: jsstring

type_synonym 'r activeExecutions = "nat \<rightharpoonup> 'r"

text \<open>\<^verbatim>\<open>if (trigger.onStart)\<close>: the action is defined and not the empty string.\<close>

fun truthyAction :: "jsstring option \<Rightarrow> bool" where
  "truthyAction None = False"
| "truthyAction (Some a) = (a \<noteq> [])"

text \<open>
  \<^verbatim>\<open>executeAction(a, ph).then(ok, failed)\<close>: the call, what it asks of the host,
  and the reaction to its outcome.
\<close>

definition fire :: "host \<Rightarrow> bool \<Rightarrow> phase \<Rightarrow> jsstring \<Rightarrow> effect list" where
  "fire H notify ph a =
     (case executeAction H a ph of
        (fx, Resolved) \<Rightarrow>
          ExecuteAction a ph # fx @ (if notify then [ShowTemporaryNotification ph a] else [])
      | (fx, Rejected e) \<Rightarrow>
          ExecuteAction a ph # fx @ [ShowErrorMessage (FailedToExecute a)])"

definition fireIfSet :: "host \<Rightarrow> bool \<Rightarrow> phase \<Rightarrow> jsstring option \<Rightarrow> effect list" where
  "fireIfSet H notify ph action =
     (if truthyAction action then fire H notify ph (the action) else [])"

section \<open>handleTerminalCommandStart\<close>

text \<open>
  The loop over the triggers. A pattern that does not compile is caught, reported and the
  loop goes on; the first pattern that matches records the execution, fires
  \<^verbatim>\<open>onStart\<close> and breaks.
\<close>

fun startLoop ::
  "'r engine \<Rightarrow> host \<Rightarrow> bool \<Rightarrow> execution \<Rightarrow> jsstring \<Rightarrow> TriggerConfig list \<Rightarrow>
   'r activeExecutions \<Rightarrow> 'r activeExecutions \<times> effect list" where
  "startLoop E H notify ex cl [] m = (m, [])"
| "startLoop E H notify ex cl (trigger # rest) m =
     (case newRegExp E (pattern trigger) of
        None \<Rightarrow>
          (case startLoop E H notify ex cl rest m of
             (m', fx) \<Rightarrow> (m', ShowErrorMessage (InvalidRegexPattern (pattern trigger)) # fx))
      | Some regex \<Rightarrow>
          if test E regex cl
          then (m(ident ex \<mapsto> regex), fireIfSet H notify OnStart (onStart trigger))
          else startLoop E H notify ex cl rest m)"

definition handleTerminalCommandStart ::
  "'r engine \<Rightarrow> host \<Rightarrow> settings \<Rightarrow> execution \<Rightarrow> 'r activeExecutions \<Rightarrow>
   'r activeExecutions \<times> effect list" where
  "handleTerminalCommandStart E H config ex m =
     (let cl = trim (commandLine ex) in
      if cl = [] then (m, [])
      else startLoop E H (showNotification config) ex cl (triggers config) m)"

section \<open>handleTerminalCommandEnd\<close>

text \<open>
  The loop that looks for the trigger of the recorded regular expression, by comparing
  \<^verbatim>\<open>toString()\<close>. A pattern that does not compile is caught and logged only.
\<close>

fun endLoop :: "'r engine \<Rightarrow> host \<Rightarrow> bool \<Rightarrow> 'r \<Rightarrow> TriggerConfig list \<Rightarrow> effect list" where
  "endLoop E H notify regex [] = []"
| "endLoop E H notify regex (trigger # rest) =
     (case newRegExp E (pattern trigger) of
        None \<Rightarrow> endLoop E H notify regex rest
      | Some triggerRegex \<Rightarrow>
          if toString E triggerRegex = toString E regex
          then fireIfSet H notify OnEnd (onEnd trigger)
          else endLoop E H notify regex rest)"

definition handleTerminalCommandEnd ::
  "'r engine \<Rightarrow> host \<Rightarrow> settings \<Rightarrow> execution \<Rightarrow> 'r activeExecutions \<Rightarrow>
   'r activeExecutions \<times> effect list" where
  "handleTerminalCommandEnd E H config ex m =
     (case m (ident ex) of
        None \<Rightarrow> (m, [])
      | Some regex \<Rightarrow>
          (m(ident ex := None),
           endLoop E H (showNotification config) regex (triggers config)))"

section \<open>Runs of the extension\<close>

text \<open>
  The two events \<^verbatim>\<open>activate\<close> subscribes to, each with the settings in force when
  its handler runs. A run starts with the empty map and handles the events in order; its
  log keeps the effects of each event.
\<close>

datatype event = Started settings execution | Ended settings execution

fun executionOf :: "event \<Rightarrow> execution" where
  "executionOf (Started config ex) = ex"
| "executionOf (Ended config ex) = ex"

fun step ::
  "'r engine \<Rightarrow> host \<Rightarrow> event \<Rightarrow> 'r activeExecutions \<Rightarrow> 'r activeExecutions \<times> effect list" where
  "step E H (Started config ex) m = handleTerminalCommandStart E H config ex m"
| "step E H (Ended config ex) m = handleTerminalCommandEnd E H config ex m"

fun run ::
  "'r engine \<Rightarrow> host \<Rightarrow> event list \<Rightarrow> 'r activeExecutions \<Rightarrow>
   'r activeExecutions \<times> (event \<times> effect list) list" where
  "run E H [] m = (m, [])"
| "run E H (ev # evs) m =
     (case step E H ev m of
        (m', fx) \<Rightarrow> (case run E H evs m' of (m'', log) \<Rightarrow> (m'', (ev, fx) # log)))"

section \<open>checkShellIntegration\<close>

text \<open>
  The persistent flag is \<^verbatim>\<open>globalState['shownShellIntegrationWarning']\<close>. One
  activation sees: the terminals that exist when the first timer fires (for each, whether
  it has shell integration), the user's answer if the warning is shown then, and the
  terminals opened while the \<^verbatim>\<open>onDidOpenTerminal\<close> listener is registered (for
  each, whether it has shell integration when its timer fires, and the user's answer if the
  warning is shown for it). The delays themselves are not modelled.
\<close>

datatype selection = LearnMore | DontShowAgain | Dismissed

datatype uiEffect = ShowWarningMessage | OpenExternal

record activationEnv =
  terminalsAtCheck :: "bool list"
  answerAtCheck :: selection
  openedLater :: "(bool \<times> selection) list"

definition showShellIntegrationWarning :: "selection \<Rightarrow> bool \<Rightarrow> bool \<times> uiEffect list" where
  "showShellIntegrationWarning sel shown =
     (if sel = LearnMore then (shown, [ShowWarningMessage, OpenExternal])
      else if sel = DontShowAgain then (True, [ShowWarningMessage])
      else (shown, [ShowWarningMessage]))"

fun onDidOpenTerminal :: "(bool \<times> selection) list \<Rightarrow> bool \<Rightarrow> bool \<times> uiEffect list" where
  "onDidOpenTerminal [] shown = (shown, [])"
| "onDidOpenTerminal ((shellIntegration, sel) # rest) shown =
     (if \<not> shellIntegration then
        (case showShellIntegrationWarning sel shown of
           (shown', fx) \<Rightarrow>
             (case onDidOpenTerminal rest shown' of (shown'', fx') \<Rightarrow> (shown'', fx @ fx')))
      else onDidOpenTerminal rest shown)"

definition checkShellIntegration :: "activationEnv \<Rightarrow> bool \<Rightarrow> bool \<times> uiEffect list" where
  "checkShellIntegration env hasShownWarning =
     (if hasShownWarning then (hasShownWarning, [])
      else
        (let terminals = terminalsAtCheck env;
             hasIntegration = list_ex (\<lambda>t. t) terminals in
         if \<not> hasIntegration \<and> length terminals = 0
         then onDidOpenTerminal (openedLater env) hasShownWarning
         else if \<not> hasIntegration
         then (True, snd (showShellIntegrationWarning (answerAtCheck env) hasShownWarning))
         else (True, [])))"

text \<open>Activations one after the other, each starting from the flag the last one left.\<close>

fun activations :: "activationEnv list \<Rightarrow> bool \<Rightarrow> bool \<times> uiEffect list" where
  "activations [] shown = (shown, [])"
| "activations (env # envs) shown =
     (case checkShellIntegration env shown of
        (shown', fx) \<Rightarrow> (case activations envs shown' of (shown'', fx') \<Rightarrow> (shown'', fx @ fx')))"

section \<open>The notions the properties below are stated with\<close>

text \<open>A trigger matches a command line: its pattern compiles and tests true.\<close>

definition matches :: "'r engine \<Rightarrow> TriggerConfig \<Rightarrow> jsstring \<Rightarrow> bool" where
  "matches E trigger cl =
     (case newRegExp E (pattern trigger) of None \<Rightarrow> False | Some regex \<Rightarrow> test E regex cl)"

text \<open>The first trigger in configuration order that matches.\<close>

definition firstMatch :: "'r engine \<Rightarrow> TriggerConfig list \<Rightarrow> jsstring \<Rightarrow> TriggerConfig option" where
  "firstMatch E ts cl = find (\<lambda>trigger. matches E trigger cl) ts"

text \<open>The error messages for the triggers of a list whose patterns do not compile.\<close>

definition invalidReports :: "'r engine \<Rightarrow> TriggerConfig list \<Rightarrow> effect list" where
  "invalidReports E ts =
     map (\<lambda>trigger. ShowErrorMessage (InvalidRegexPattern (pattern trigger)))
       (filter (\<lambda>trigger. newRegExp E (pattern trigger) = None) ts)"

text \<open>
  What ECMAScript promises of \<^verbatim>\<open>toString\<close>: two compiled regular expressions with
  the same source and flags behave the same.
\<close>

definition consistent :: "'r engine \<Rightarrow> bool" where
  "consistent E \<longleftrightarrow>
     (\<forall>p q r r' s. newRegExp E p = Some r \<longrightarrow> newRegExp E q = Some r' \<longrightarrow>
        toString E r = toString E r' \<longrightarrow> test E r s = test E r' s)"

text \<open>An effect that executes an action, or is part of executing one.\<close>

fun isAction :: "effect \<Rightarrow> bool" where
  "isAction (ExecuteAction a ph) = True"
| "isAction (ActivateExtension x) = True"
| "isAction (CallMethod f t) = True"
| "isAction (ExecuteCommand c) = True"
| "isAction (ShowTemporaryNotification ph a) = False"
| "isAction (ShowErrorMessage msg) = False"

text \<open>An effect that invokes a method of an extension or an editor command.\<close>

fun isInvocation :: "effect \<Rightarrow> bool" where
  "isInvocation (CallMethod f t) = True"
| "isInvocation (ExecuteCommand c) = True"
| "isInvocation (ExecuteAction a ph) = False"
| "isInvocation (ActivateExtension x) = False"
| "isInvocation (ShowTemporaryNotification ph a) = False"
| "isInvocation (ShowErrorMessage msg) = False"

definition rejectsWithoutInvoking :: "effect list \<times> promise \<Rightarrow> bool" where
  "rejectsWithoutInvoking r =
     (case r of (fx, Rejected e) \<Rightarrow> \<not> list_ex isInvocation fx | (fx, Resolved) \<Rightarrow> False)"

text \<open>
  Following a dot-separated path on an API object, one property read per segment (a read
  on null or undefined gives undefined).
\<close>

definition follow :: "jsval \<Rightarrow> jsstring list \<Rightarrow> jsval" where
  "follow api segments = foldl optGet api segments"

text \<open>
  The parts of an action \<^verbatim>\<open>ext:extensionId:api.path\<close>, and the four conditions
  under which it is said to be rejected. An intermediate segment is every segment but the
  last; it resolves to nothing when the value read there is falsy.
\<close>

definition actionParts :: "jsstring \<Rightarrow> jsstring list" where
  "actionParts action = splitOn COLON (drop 4 action)"

definition extensionIdOf :: "jsstring \<Rightarrow> jsstring" where
  "extensionIdOf action = hd (actionParts action)"

definition apiSegmentsOf :: "jsstring \<Rightarrow> jsstring list" where
  "apiSegmentsOf action = splitOn DOT (joinWith COLON (tl (actionParts action)))"

definition intermediateMissing :: "jsval \<Rightarrow> jsstring list \<Rightarrow> bool" where
  "intermediateMissing api segments =
     list_ex (\<lambda>k. \<not> truthy (follow api (take k segments))) [1..<length segments]"

definition listedRejection :: "host \<Rightarrow> jsstring \<Rightarrow> bool" where
  "listedRejection H action \<longleftrightarrow>
     length (actionParts action) < 2 \<or>
     (case getExtension H (extensionIdOf action) of
        None \<Rightarrow> True
      | Some (ActivationFailed e) \<Rightarrow> False
      | Some (Exports api) \<Rightarrow>
          intermediateMissing api (apiSegmentsOf action) \<or>
          \<not> isFunction (follow api (apiSegmentsOf action)))"

definition activationFails :: "host \<Rightarrow> jsstring \<Rightarrow> bool" where
  "activationFails H action \<longleftrightarrow>
     2 \<le> length (actionParts action) \<and>
     (case getExtension H (extensionIdOf action) of
        Some (ActivationFailed e) \<Rightarrow> True | _ \<Rightarrow> False)"

text \<open>The calls of \<^verbatim>\<open>executeAction\<close> among some effects: action and phase.\<close>

fun firedBy :: "effect \<Rightarrow> (jsstring \<times> phase) list" where
  "firedBy (ExecuteAction a ph) = [(a, ph)]"
| "firedBy (ActivateExtension x) = []"
| "firedBy (CallMethod f t) = []"
| "firedBy (ExecuteCommand c) = []"
| "firedBy (ShowTemporaryNotification ph a) = []"
| "firedBy (ShowErrorMessage msg) = []"

definition actionsFired :: "effect list \<Rightarrow> (jsstring \<times> phase) list" where
  "actionsFired fx = concat (map firedBy fx)"

text \<open>
  An event is the start of execution \<open>k\<close> at which a configured trigger matched, with
  compiled regular expression \<open>r\<close>.
\<close>

fun startMatched :: "'r engine \<Rightarrow> nat \<Rightarrow> 'r \<Rightarrow> event \<Rightarrow> bool" where
  "startMatched E k r (Started config ex) \<longleftrightarrow>
     ident ex = k \<and> trim (commandLine ex) \<noteq> [] \<and>
     list_ex (\<lambda>trigger. newRegExp E (pattern trigger) = Some r \<and> test E r (trim (commandLine ex)))
       (triggers config)"
| "startMatched E k r (Ended config ex) \<longleftrightarrow> False"

text \<open>
  In the log of a run: how many \<^verbatim>\<open>onEnd\<close> actions the end events of execution
  \<open>k\<close> fired; and among some events, how many are starts of execution \<open>k\<close>.
\<close>

fun onEndFired :: "nat \<Rightarrow> event \<times> effect list \<Rightarrow> nat" where
  "onEndFired k (Started config ex, fx) = 0"
| "onEndFired k (Ended config ex, fx) =
     (if ident ex = k then length (filter (\<lambda>(a, ph). ph = OnEnd) (actionsFired fx)) else 0)"

definition onEndFirings :: "nat \<Rightarrow> (event \<times> effect list) list \<Rightarrow> nat" where
  "onEndFirings k log = sum_list (map (onEndFired k) log)"

fun isStartOf :: "nat \<Rightarrow> event \<Rightarrow> bool" where
  "isStartOf k (Started config ex) \<longleftrightarrow> ident ex = k"
| "isStartOf k (Ended config ex) \<longleftrightarrow> False"

definition startsOf :: "nat \<Rightarrow> event list \<Rightarrow> nat" where
  "startsOf k evs = length (filter (isStartOf k) evs)"

section \<open>A fragment of the ECMAScript regular expressions, for concrete runs\<close>

text \<open>
  Patterns made of ASCII letters, digits and spaces, with an optional \<^verbatim>\<open>^\<close> in
  front and an optional \<^verbatim>\<open>$\<close> at the end. On these patterns the three
  operations below are those of ECMAScript (no flags): the pattern compiles, it tests
  true on the strings that contain the literal text (at the start, at the end, or as the
  whole string, as anchored), and \<^verbatim>\<open>toString\<close> gives the pattern between
  slashes, \<^verbatim>\<open>/(?:)/\<close> for the empty pattern. Every other pattern is outside the
  fragment and refused by it; of those, only \<^verbatim>\<open>(\<close> is used below, which
  ECMAScript refuses as well (an unterminated group).
\<close>

definition CARET :: "16 word" where
  "CARET = 0x5E"

definition DOLLAR :: "16 word" where
  "DOLLAR = 0x24"

definition isLiteralChar :: "16 word \<Rightarrow> bool" where
  "isLiteralChar c \<longleftrightarrow>
     c = 0x20 \<or> (0x30 \<le> c \<and> c \<le> 0x39) \<or> (0x41 \<le> c \<and> c \<le> 0x5A) \<or> (0x61 \<le> c \<and> c \<le> 0x7A)"

definition anchoredStart :: "jsstring \<Rightarrow> bool" where
  "anchoredStart p \<longleftrightarrow> p \<noteq> [] \<and> hd p = CARET"

definition afterCaret :: "jsstring \<Rightarrow> jsstring" where
  "afterCaret p = (if anchoredStart p then tl p else p)"

definition anchoredEnd :: "jsstring \<Rightarrow> bool" where
  "anchoredEnd p \<longleftrightarrow> afterCaret p \<noteq> [] \<and> last (afterCaret p) = DOLLAR"

definition literalBody :: "jsstring \<Rightarrow> jsstring" where
  "literalBody p = (if anchoredEnd p then butlast (afterCaret p) else afterCaret p)"

fun occurs :: "jsstring \<Rightarrow> jsstring \<Rightarrow> bool" where
  "occurs b [] = (b = [])"
| "occurs b (x # xs) = (take (length b) (x # xs) = b \<or> occurs b xs)"

definition literalTest :: "jsstring \<Rightarrow> jsstring \<Rightarrow> bool" where
  "literalTest p s =
     (let b = literalBody p in
      if anchoredStart p \<and> anchoredEnd p then s = b
      else if anchoredStart p then take (length b) s = b
      else if anchoredEnd p then length b \<le> length s \<and> drop (length s - length b) s = b
      else occurs b s)"

definition literalEngine :: "jsstring engine" where
  "literalEngine =
     \<lparr> newRegExp = (\<lambda>p. if list_all isLiteralChar (literalBody p) then Some p else None),
       test = literalTest,
       toString = (\<lambda>p. js ''/'' @ (if p = [] then js ''(?:)'' else p) @ js ''/'') \<rparr>"

section \<open>Concrete hosts, configurations and executions\<close>

text \<open>
  The API of the README's example: \<^verbatim>\<open>client.stop\<close> and \<^verbatim>\<open>client.start\<close>
  of the clangd extension; and an extension whose activation fails.
\<close>

definition clangdClient :: jsval where
  "clangdClient = Object [(js ''stop'', Function 1 []), (js ''start'', Function 2 [])]"

definition clangdApi :: jsval where
  "clangdApi = Object [(js ''client'', clangdClient)]"

definition exampleHost :: host where
  "exampleHost =
     \<lparr> getExtension = (\<lambda>x.
         if x = js ''llvm-vs-code-extensions.vscode-clangd'' then Some (Exports clangdApi)
         else if x = js ''broken.ext'' then Some (ActivationFailed ''activation failed'')
         else None),
       methodCall = (\<lambda>f t. None),
       commandRun = (\<lambda>c. None) \<rparr>"

definition buildTrigger :: TriggerConfig where
  "buildTrigger =
     \<lparr> pattern = js ''make'', onStart = Some (js ''build.begin''),
       onEnd = Some (js ''build.done''), description = None \<rparr>"

definition testTrigger :: TriggerConfig where
  "testTrigger =
     \<lparr> pattern = js ''test'', onStart = Some (js ''tests.begin''),
       onEnd = Some (js ''tests.done''), description = None \<rparr>"

definition brokenTrigger :: TriggerConfig where
  "brokenTrigger =
     \<lparr> pattern = js ''('', onStart = Some (js ''never.run''), onEnd = None,
       description = None \<rparr>"

definition anyTrigger :: TriggerConfig where
  "anyTrigger =
     \<lparr> pattern = [], onStart = Some (js ''any.begin''), onEnd = None,
       description = None \<rparr>"

definition lineStartTrigger :: TriggerConfig where
  "lineStartTrigger =
     \<lparr> pattern = js ''^'', onStart = Some (js ''line.begin''), onEnd = None,
       description = None \<rparr>"

definition buildAndTest :: settings where
  "buildAndTest = \<lparr> triggers = [buildTrigger, testTrigger], showNotification = True \<rparr>"

definition brokenFirst :: settings where
  "brokenFirst = \<lparr> triggers = [brokenTrigger, buildTrigger], showNotification = False \<rparr>"

definition matchAnything :: settings where
  "matchAnything = \<lparr> triggers = [anyTrigger, lineStartTrigger], showNotification = True \<rparr>"

definition makeTest :: execution where
  "makeTest = \<lparr> ident = 7, commandLine = js '' make test '' \<rparr>"

definition listFiles :: execution where
  "listFiles = \<lparr> ident = 8, commandLine = js ''ls'' \<rparr>"

definition blankLine :: execution where
  "blankLine = \<lparr> ident = 9, commandLine = js ''   '' \<rparr>"

text \<open>
  Two activations alike: no terminal exists when the check runs, then a terminal without
  shell integration is opened and the warning is dismissed.
\<close>

definition noTerminalYet :: activationEnv where
  "noTerminalYet =
     \<lparr> terminalsAtCheck = [], answerAtCheck = Dismissed, openedLater = [(False, Dismissed)] \<rparr>"

text \<open>
  An extension whose API has a number that is zero: \<^verbatim>\<open>{ count: 0 }\<close>. Reading
  \<^verbatim>\<open>toFixed\<close> from the number gives the function of the number prototype.
\<close>

definition statsApi :: jsval where
  "statsApi = Object [(js ''count'', Primitive False [(js ''toFixed'', Function 3 [])])]"

definition statsHost :: host where
  "statsHost =
     \<lparr> getExtension = (\<lambda>x. if x = js ''stats.ext'' then Some (Exports statsApi) else None),
       methodCall = (\<lambda>f t. None),
       commandRun = (\<lambda>c. None) \<rparr>"

text \<open>
  The settings after an edit that puts another trigger with the pattern \<^verbatim>\<open>make\<close>
  in front; and settings with the invalid pattern behind a trigger that matches.
\<close>

definition otherMakeTrigger :: TriggerConfig where
  "otherMakeTrigger =
     \<lparr> pattern = js ''make'', onStart = None, onEnd = Some (js ''other.done''),
       description = None \<rparr>"

definition editedSettings :: settings where
  "editedSettings =
     \<lparr> triggers = [otherMakeTrigger, buildTrigger, testTrigger], showNotification = True \<rparr>"

definition brokenLast :: settings where
  "brokenLast = \<lparr> triggers = [buildTrigger, brokenTrigger], showNotification = True \<rparr>"

section \<open>Properties of the string operations\<close>

lemma splitOn_nonempty: "splitOn c xs \<noteq> []"
  by (induction xs) (auto split: list.splits)

lemma splitOn_append: "c \<notin> set xs \<Longrightarrow> splitOn c (xs @ c # ys) = xs # splitOn c ys"
  by (induction xs) auto

lemma joinWith_splitOn: "joinWith c (splitOn c xs) = xs"
proof (induction xs)
  case Nil
  then show ?case by simp
next
  case (Cons x xs)
  show ?case
  proof (cases "splitOn c xs")
    case Nil
    then show ?thesis using splitOn_nonempty[of c xs] by simp
  next
    case (Cons p ps)
    then show ?thesis using Cons.IH by (cases ps) auto
  qed
qed

lemma trim_blank:
  assumes "\<forall>c\<in>set s. isWhiteSpace c"
  shows "trim s = []"
proof -
  have blank: "dropWhile isWhiteSpace s = []" using assms by simp
  show ?thesis unfolding trim_def blank by simp
qed

lemmas string_simps = js_def trim_def isWhiteSpace_def startsWith_def COLON_def DOT_def

lemmas literal_simps = literalEngine_def literalTest_def literalBody_def anchoredEnd_def
  afterCaret_def anchoredStart_def isLiteralChar_def CARET_def DOLLAR_def

section \<open>The start handler ignores blank command lines\<close>

text \<open>
  C8. When the command line of an execution is empty or consists only of white space, the
  start handler returns at once: whatever the regular expression engine, the host and the
  configured triggers are (also when a pattern matches the empty string), it executes
  nothing, reports nothing and leaves the map of active executions as it was.
\<close>

theorem blank_command_ignored:
  assumes "\<forall>c\<in>set (commandLine ex). isWhiteSpace c"
  shows "handleTerminalCommandStart E H config ex m = (m, [])"
  using assms by (simp add: handleTerminalCommandStart_def trim_blank)

theorem blank_command_ignored_witness:
  "matches literalEngine anyTrigger (trim (commandLine blankLine)) \<and>
   handleTerminalCommandStart literalEngine exampleHost matchAnything blankLine Map.empty =
     (Map.empty, [])"
proof -
  have blank: "\<forall>c\<in>set (commandLine blankLine). isWhiteSpace c"
    by (simp add: blankLine_def string_simps)
  have "matches literalEngine anyTrigger (trim (commandLine blankLine))"
    by (simp add: matches_def anyTrigger_def blankLine_def string_simps literal_simps)
  then show ?thesis
    using blank_command_ignored[OF blank, of literalEngine exampleHost matchAnything Map.empty]
    by simp
qed

section \<open>Properties of executeAction\<close>

lemma follow_Nil [simp]: "follow api [] = api"
  by (simp add: follow_def)

lemma follow_snoc:
  "i < length segs \<Longrightarrow>
   follow api (take (Suc i) segs) = optGet (follow api (take i segs)) (segs ! i)"
  by (simp add: follow_def take_Suc_conv_app_nth)

lemma follow_last:
  "segs \<noteq> [] \<Longrightarrow> follow api segs = optGet (follow api (butlast segs)) (last segs)"
  using follow_snoc[of "length segs - 1" segs api]
  by (simp add: butlast_conv_take last_conv_nth)

text \<open>The walk succeeds when every intermediate value is truthy, and fails otherwise.\<close>

lemma walk_reaches:
  "i \<le> length segs - 1 \<Longrightarrow>
   \<forall>k. i < k \<and> k < length segs \<longrightarrow> truthy (follow api (take k segs)) \<Longrightarrow>
   walk p segs i (follow api (take i segs)) = Inr (follow api (butlast segs))"
proof (induction "length segs - 1 - i" arbitrary: i)
  case 0
  then have "i = length segs - 1" by simp
  then show ?case by (subst walk.simps) (simp add: butlast_conv_take)
next
  case (Suc n)
  then have lt: "i < length segs - 1" by simp
  then have "truthy (follow api (take (Suc i) segs))" using Suc.prems(2) by simp
  moreover have "walk p segs (Suc i) (follow api (take (Suc i) segs)) =
      Inr (follow api (butlast segs))"
    using Suc.hyps(1)[of "Suc i"] Suc.hyps(2) Suc.prems(2) lt by simp
  ultimately show ?case using lt
    by (subst walk.simps) (simp add: Let_def follow_snoc)
qed

lemma walk_fails:
  "i < k \<Longrightarrow> k < length segs \<Longrightarrow> \<not> truthy (follow api (take k segs)) \<Longrightarrow>
   \<exists>e. walk p segs i (follow api (take i segs)) = Inl e"
proof (induction "k - i" arbitrary: i)
  case 0
  then show ?case by simp
next
  case (Suc n)
  then have lt: "i < length segs - 1" by simp
  show ?case
  proof (cases "truthy (follow api (take (Suc i) segs))")
    case False
    then show ?thesis using lt by (subst walk.simps) (simp add: Let_def follow_snoc)
  next
    case True
    then have "k \<noteq> Suc i" using Suc.prems(3) by auto
    then have "\<exists>e. walk p segs (Suc i) (follow api (take (Suc i) segs)) = Inl e"
      using Suc.hyps(1)[of "Suc i"] Suc.hyps(2) Suc.prems by simp
    then show ?thesis using lt True by (subst walk.simps) (simp add: Let_def follow_snoc)
  qed
qed

lemma intermediateMissing_iff:
  "intermediateMissing api segs \<longleftrightarrow>
     (\<exists>k. 0 < k \<and> k < length segs \<and> \<not> truthy (follow api (take k segs)))"
  unfolding intermediateMissing_def list_ex_iff
  by (metis Suc_le_eq One_nat_def atLeastLessThan_iff set_upt)

lemma callApi_missing:
  assumes "intermediateMissing api (splitOn DOT p)"
  shows "\<exists>e. callApi H x p api = ([ActivateExtension x], Rejected e)"
proof -
  from assms obtain k where "0 < k" "k < length (splitOn DOT p)"
      "\<not> truthy (follow api (take k (splitOn DOT p)))"
    by (auto simp: intermediateMissing_iff)
  from walk_fails[OF this, of p] obtain e where "walk p (splitOn DOT p) 0 api = Inl e"
    by auto
  then show ?thesis by (simp add: callApi_def Let_def)
qed

lemma callApi_present:
  assumes "\<not> intermediateMissing api (splitOn DOT p)"
  shows "callApi H x p api =
     (case follow api (splitOn DOT p) of
        Function f ps \<Rightarrow>
          ([ActivateExtension x, CallMethod f (follow api (butlast (splitOn DOT p)))],
           settle (methodCall H f (follow api (butlast (splitOn DOT p)))))
      | _ \<Rightarrow>
          ([ActivateExtension x],
           Rejected (if nullish (follow api (butlast (splitOn DOT p))) then TypeError
                     else NotAFunction p)))"
proof -
  let ?segs = "splitOn DOT p"
  have "\<forall>k. 0 < k \<and> k < length ?segs \<longrightarrow> truthy (follow api (take k ?segs))"
    using assms by (auto simp: intermediateMissing_iff)
  then have w: "walk p ?segs 0 api = Inr (follow api (butlast ?segs))"
    using walk_reaches[of 0 ?segs api p] by simp
  have f: "follow api ?segs = optGet (follow api (butlast ?segs)) (last ?segs)"
    using splitOn_nonempty by (rule follow_last)
  show ?thesis
  proof (cases "nullish (follow api (butlast ?segs))")
    case True
    then show ?thesis using w f by (simp add: callApi_def optGet_def Let_def)
  next
    case False
    then show ?thesis using w f
      by (cases "getProp (follow api (butlast ?segs)) (last ?segs)")
        (simp_all add: callApi_def optGet_def Let_def)
  qed
qed

lemma executeAction_ext:
  assumes "startsWith action (js ''ext:'')"
  shows "executeAction H action ph =
     (if length (actionParts action) < 2 then ([], Rejected (InvalidSyntax action))
      else
        (case getExtension H (extensionIdOf action) of
           None \<Rightarrow> ([], Rejected (ExtensionNotFound (extensionIdOf action)))
         | Some (ActivationFailed e) \<Rightarrow>
             ([ActivateExtension (extensionIdOf action)], Rejected (HostError e))
         | Some (Exports api) \<Rightarrow>
             callApi H (extensionIdOf action) (joinWith COLON (tl (actionParts action))) api))"
  using assms
  by (simp add: executeAction_def actionParts_def extensionIdOf_def Let_def
      split: option.splits activation.splits)

lemma startsWith_ext: "startsWith (js ''ext:'' @ rest) (js ''ext:'')"
  by (simp add: startsWith_def js_def)

lemma drop_ext: "drop 4 (js ''ext:'' @ rest) = rest"
  by (simp add: js_def)

lemma actionParts_ext:
  "COLON \<notin> set x \<Longrightarrow> actionParts (js ''ext:'' @ x @ COLON # p) = x # splitOn COLON p"
  unfolding actionParts_def drop_ext by (simp add: splitOn_append)

lemma executeAction_installed:
  assumes "COLON \<notin> set x" and "getExtension H x = Some a"
  shows "executeAction H (js ''ext:'' @ x @ COLON # p) ph =
     (case a of
        ActivationFailed e \<Rightarrow> ([ActivateExtension x], Rejected (HostError e))
      | Exports api \<Rightarrow> callApi H x p api)"
proof -
  let ?a = "js ''ext:'' @ x @ COLON # p"
  have parts: "actionParts ?a = x # splitOn COLON p" using assms(1) by (rule actionParts_ext)
  have len: "\<not> length (actionParts ?a) < 2"
    using splitOn_nonempty[of COLON p] by (cases "splitOn COLON p") (simp_all add: parts)
  have id: "extensionIdOf ?a = x" by (simp add: extensionIdOf_def parts)
  have path: "joinWith COLON (tl (actionParts ?a)) = p" by (simp add: parts joinWith_splitOn)
  show ?thesis
    using len assms(2)
    by (cases a) (simp_all add: executeAction_ext[OF startsWith_ext] id path)
qed

lemma executeAction_fires_nothing: "actionsFired (fst (executeAction H a ph)) = []"
  by (auto simp: executeAction_def callApi_def actionsFired_def Let_def
      split: option.splits activation.splits sum.splits jsval.splits)

text \<open>
  C3, as stated, fails where a value on the way along the path is falsy: on the API
  \<^verbatim>\<open>{ count: 0 }\<close> the path \<^verbatim>\<open>count.toFixed\<close> leads to a function, and
  \<^verbatim>\<open>executeAction\<close> does not call it; it rejects at the segment
  \<^verbatim>\<open>count\<close>, after activating the extension.
\<close>

theorem falsy_intermediate_counterexample:
  "getExtension statsHost (js ''stats.ext'') = Some (Exports statsApi) \<and>
   follow statsApi (splitOn DOT (js ''count.toFixed'')) = Function 3 [] \<and>
   executeAction statsHost (js ''ext:stats.ext:count.toFixed'') OnStart =
     ([ActivateExtension (js ''stats.ext'')],
      Rejected (ApiPathNotFound (js ''count.toFixed'') (js ''count'')))"
proof -
  have walk: "walk p [js ''count'', js ''toFixed''] 0 statsApi =
      Inl (ApiPathNotFound p (js ''count''))" for p
    by (subst walk.simps)
      (simp add: optGet_def getProp_def statsApi_def js_def Let_def)
  have segs: "splitOn DOT (js ''count.toFixed'') = [js ''count'', js ''toFixed'']"
    by (simp add: string_simps)
  have reach: "follow statsApi [js ''count'', js ''toFixed''] = Function 3 []"
    by (simp add: follow_def optGet_def getProp_def statsApi_def js_def)
  have host: "getExtension statsHost (js ''stats.ext'') = Some (Exports statsApi)"
    by (simp add: statsHost_def)
  have call: "callApi statsHost (js ''stats.ext'') (js ''count.toFixed'') statsApi =
      ([ActivateExtension (js ''stats.ext'')],
       Rejected (ApiPathNotFound (js ''count.toFixed'') (js ''count'')))"
    by (simp add: callApi_def segs walk)
  have parts: "splitOn COLON (drop 4 (js ''ext:stats.ext:count.toFixed'')) =
      [js ''stats.ext'', js ''count.toFixed'']"
    by (simp add: string_simps)
  have ext: "startsWith (js ''ext:stats.ext:count.toFixed'') (js ''ext:'')"
    by (simp add: string_simps)
  have "executeAction statsHost (js ''ext:stats.ext:count.toFixed'') OnStart =
     ([ActivateExtension (js ''stats.ext'')],
      Rejected (ApiPathNotFound (js ''count.toFixed'') (js ''count'')))"
    unfolding executeAction_def by (simp only: ext parts if_True) (simp add: host call)
  then show ?thesis using host reach by (simp only: segs)
qed

text \<open>
  C3, amended. \<^verbatim>\<open>executeAction\<close> resolves its argument by prefix. For an action
  \<^verbatim>\<open>ext:extensionId:api.path\<close> (no colon in the extension id; the path is all that
  comes after the second colon, further colons included) whose extension is installed, the
  first thing it does is activate that extension. When the activation gives the API, every
  value on the way along the dot-separated path is an object to go on from (truthy), and
  the value at the end of the path is a function, it calls exactly that function, with the
  value before the last segment as \<^verbatim>\<open>this\<close>, and settles as the call does. An action
  that does not start with \<^verbatim>\<open>ext:\<close> is executed as an editor command, whole.
\<close>

theorem executeAction_by_prefix:
  "(COLON \<notin> set extensionId \<longrightarrow>
      getExtension H extensionId = Some (Exports api) \<longrightarrow>
      (\<forall>k\<in>{1..<length (splitOn DOT apiPath)}.
          truthy (follow api (take k (splitOn DOT apiPath)))) \<longrightarrow>
      follow api (splitOn DOT apiPath) = Function f ps \<longrightarrow>
      executeAction H (js ''ext:'' @ extensionId @ COLON # apiPath) ph =
        ([ActivateExtension extensionId,
          CallMethod f (follow api (butlast (splitOn DOT apiPath)))],
         settle (methodCall H f (follow api (butlast (splitOn DOT apiPath)))))) \<and>
   (COLON \<notin> set extensionId \<longrightarrow>
      getExtension H extensionId \<noteq> None \<longrightarrow>
      (\<exists>fx r. executeAction H (js ''ext:'' @ extensionId @ COLON # apiPath) ph =
          (ActivateExtension extensionId # fx, r))) \<and>
   (\<not> startsWith action (js ''ext:'') \<longrightarrow>
      executeAction H action ph = ([ExecuteCommand action], settle (commandRun H action)))"
proof (intro conjI impI)
  assume x: "COLON \<notin> set extensionId"
    and a: "getExtension H extensionId = Some (Exports api)"
    and t: "\<forall>k\<in>{1..<length (splitOn DOT apiPath)}.
          truthy (follow api (take k (splitOn DOT apiPath)))"
    and f: "follow api (splitOn DOT apiPath) = Function f ps"
  have "\<not> intermediateMissing api (splitOn DOT apiPath)"
    using t by (auto simp: intermediateMissing_def list_ex_iff)
  then show "executeAction H (js ''ext:'' @ extensionId @ COLON # apiPath) ph =
        ([ActivateExtension extensionId,
          CallMethod f (follow api (butlast (splitOn DOT apiPath)))],
         settle (methodCall H f (follow api (butlast (splitOn DOT apiPath)))))"
    using f by (simp add: executeAction_installed[OF x a] callApi_present)
next
  assume x: "COLON \<notin> set extensionId" and "getExtension H extensionId \<noteq> None"
  then obtain a where a: "getExtension H extensionId = Some a" by auto
  show "\<exists>fx r. executeAction H (js ''ext:'' @ extensionId @ COLON # apiPath) ph =
          (ActivateExtension extensionId # fx, r)"
  proof (cases a)
    case (ActivationFailed e)
    then show ?thesis by (simp add: executeAction_installed[OF x a])
  next
    case (Exports api)
    show ?thesis
    proof (cases "intermediateMissing api (splitOn DOT apiPath)")
      case True
      from callApi_missing[OF True, of H extensionId] show ?thesis
        using Exports by (auto simp: executeAction_installed[OF x a])
    next
      case False
      show ?thesis using Exports
        by (cases "follow api (splitOn DOT apiPath)")
          (simp_all add: executeAction_installed[OF x a] callApi_present[OF False])
    qed
  qed
next
  assume "\<not> startsWith action (js ''ext:'')"
  then show "executeAction H action ph = ([ExecuteCommand action], settle (commandRun H action))"
    by (simp add: executeAction_def)
qed

theorem executeAction_by_prefix_witness:
  "executeAction exampleHost (js ''ext:llvm-vs-code-extensions.vscode-clangd:client.stop'') OnStart =
     ([ActivateExtension (js ''llvm-vs-code-extensions.vscode-clangd''),
       CallMethod 1 clangdClient], Resolved) \<and>
   executeAction exampleHost (js ''clangd.restart'') OnStart =
     ([ExecuteCommand (js ''clangd.restart'')], Resolved)"
proof -
  let ?x = "js ''llvm-vs-code-extensions.vscode-clangd''"
  let ?p = "js ''client.stop''"
  have segs: "splitOn DOT ?p = [js ''client'', js ''stop'']"
    by (simp add: string_simps)
  have h1: "COLON \<notin> set ?x" by (simp add: string_simps)
  have h2: "getExtension exampleHost ?x = Some (Exports clangdApi)"
    by (simp add: exampleHost_def)
  have h3: "\<forall>k\<in>{1..<length (splitOn DOT ?p)}. truthy (follow clangdApi (take k (splitOn DOT ?p)))"
    unfolding segs
    by (simp add: follow_def optGet_def getProp_def clangdApi_def clangdClient_def js_def)
  have h4: "follow clangdApi (splitOn DOT ?p) = Function 1 []"
    unfolding segs
    by (simp add: follow_def optGet_def getProp_def clangdApi_def clangdClient_def js_def)
  have h5: "\<not> startsWith (js ''clangd.restart'') (js ''ext:'')"
    by (simp add: string_simps)
  have target: "follow clangdApi (butlast (splitOn DOT ?p)) = clangdClient"
    unfolding segs
    by (simp add: follow_def optGet_def getProp_def clangdApi_def js_def)
  have action: "js ''ext:'' @ ?x @ COLON # ?p =
      js ''ext:llvm-vs-code-extensions.vscode-clangd:client.stop''"
    by (simp add: string_simps)
  show ?thesis
    using executeAction_by_prefix[of ?x exampleHost clangdApi ?p 1 "[]" OnStart "js ''clangd.restart''"]
      h1 h2 h3 h4 h5
    by (simp add: target action settle_def exampleHost_def)
qed

text \<open>
  C4, as stated, fails where the activation of an installed extension fails: the action
  has two parts, the extension is installed, and no API exists on which a segment could
  resolve to nothing or to something that is not a function; yet
  \<^verbatim>\<open>executeAction\<close> rejects, with the host's error, and invokes nothing.
\<close>

theorem executeAction_rejects_counterexample:
  "executeAction exampleHost (js ''ext:broken.ext:client.stop'') OnStart =
     ([ActivateExtension (js ''broken.ext'')], Rejected (HostError ''activation failed'')) \<and>
   rejectsWithoutInvoking (executeAction exampleHost (js ''ext:broken.ext:client.stop'') OnStart) \<and>
   \<not> listedRejection exampleHost (js ''ext:broken.ext:client.stop'')"
  by (simp add: executeAction_def callApi_def rejectsWithoutInvoking_def listedRejection_def
      actionParts_def extensionIdOf_def exampleHost_def string_simps)

text \<open>
  C4, amended. On an action that starts with \<^verbatim>\<open>ext:\<close>, \<^verbatim>\<open>executeAction\<close>
  rejects with an error and invokes no method and no command exactly when one of the
  following holds: the remainder after \<^verbatim>\<open>ext:\<close> has fewer than two colon-separated
  parts, the named extension is not installed, activating the extension fails, an
  intermediate segment of the API path resolves to nothing (a falsy value), or the value
  at the final segment is not a function (which includes that nothing can be read there
  because the API itself is null or undefined).
\<close>

theorem executeAction_rejects_iff:
  assumes "startsWith action (js ''ext:'')"
  shows "rejectsWithoutInvoking (executeAction H action ph) \<longleftrightarrow>
     listedRejection H action \<or> activationFails H action"
proof (cases "length (actionParts action) < 2")
  case True
  then show ?thesis
    by (simp add: executeAction_ext[OF assms] rejectsWithoutInvoking_def listedRejection_def)
next
  case parts: False
  show ?thesis
  proof (cases "getExtension H (extensionIdOf action)")
    case None
    then show ?thesis using parts
      by (simp add: executeAction_ext[OF assms] rejectsWithoutInvoking_def listedRejection_def)
  next
    case (Some a)
    show ?thesis
    proof (cases a)
      case (ActivationFailed e)
      then show ?thesis using parts Some
        by (simp add: executeAction_ext[OF assms] rejectsWithoutInvoking_def activationFails_def)
    next
      case (Exports api)
      let ?x = "extensionIdOf action"
      let ?p = "joinWith COLON (tl (actionParts action))"
      have ex: "executeAction H action ph = callApi H ?x ?p api"
        using parts Some Exports by (simp add: executeAction_ext[OF assms])
      have rhs: "(listedRejection H action \<or> activationFails H action) \<longleftrightarrow>
          intermediateMissing api (splitOn DOT ?p) \<or> \<not> isFunction (follow api (splitOn DOT ?p))"
        using parts Some Exports
        by (simp add: listedRejection_def activationFails_def apiSegmentsOf_def)
      show ?thesis
      proof (cases "intermediateMissing api (splitOn DOT ?p)")
        case True
        from callApi_missing[OF True, of H ?x] obtain e where
          "callApi H ?x ?p api = ([ActivateExtension ?x], Rejected e)"
          by blast
        then show ?thesis
          unfolding ex rhs using True by (simp add: rejectsWithoutInvoking_def)
      next
        case False
        show ?thesis unfolding ex rhs callApi_present[OF False]
          using False
          by (cases "follow api (splitOn DOT ?p)")
            (simp_all add: rejectsWithoutInvoking_def split: promise.splits)
      qed
    qed
  qed
qed

theorem executeAction_rejects_iff_witness:
  "startsWith (js ''ext:broken.ext:client.stop'') (js ''ext:'') \<and>
   activationFails exampleHost (js ''ext:broken.ext:client.stop'') \<and>
   rejectsWithoutInvoking (executeAction exampleHost (js ''ext:broken.ext:client.stop'') OnEnd) \<and>
   startsWith (js ''ext:llvm-vs-code-extensions.vscode-clangd:client'') (js ''ext:'') \<and>
   listedRejection exampleHost (js ''ext:llvm-vs-code-extensions.vscode-clangd:client'') \<and>
   rejectsWithoutInvoking
     (executeAction exampleHost (js ''ext:llvm-vs-code-extensions.vscode-clangd:client'') OnEnd)"
proof -
  let ?a = "js ''ext:broken.ext:client.stop''"
  let ?b = "js ''ext:llvm-vs-code-extensions.vscode-clangd:client''"
  have a1: "startsWith ?a (js ''ext:'')" by (simp add: string_simps)
  have a2: "activationFails exampleHost ?a"
    by (simp add: activationFails_def actionParts_def extensionIdOf_def exampleHost_def
        string_simps)
  have b1: "startsWith ?b (js ''ext:'')" by (simp add: string_simps)
  have b2: "listedRejection exampleHost ?b"
    by (simp add: listedRejection_def actionParts_def extensionIdOf_def apiSegmentsOf_def
        intermediateMissing_def follow_def optGet_def getProp_def exampleHost_def clangdApi_def
        clangdClient_def string_simps)
  show ?thesis
    using executeAction_rejects_iff[OF a1, of exampleHost OnEnd]
      executeAction_rejects_iff[OF b1, of exampleHost OnEnd] a1 a2 b1 b2
    by simp
qed

section \<open>Properties of the two handlers\<close>

lemma actionsFired_Nil [simp]: "actionsFired [] = []"
  by (simp add: actionsFired_def)

lemma actionsFired_Cons [simp]: "actionsFired (x # xs) = firedBy x @ actionsFired xs"
  by (simp add: actionsFired_def)

lemma actionsFired_append [simp]: "actionsFired (xs @ ys) = actionsFired xs @ actionsFired ys"
  by (simp add: actionsFired_def)

lemma actionsFired_fire [simp]: "actionsFired (fire H n ph a) = [(a, ph)]"
proof -
  obtain fx r where e: "executeAction H a ph = (fx, r)" by (cases "executeAction H a ph")
  then have "actionsFired fx = []" using executeAction_fires_nothing[of H a ph] by simp
  then show ?thesis using e by (cases r) (simp_all add: fire_def)
qed

lemma actionsFired_fireIfSet:
  "actionsFired (fireIfSet H n ph action) =
     (if truthyAction action then [(the action, ph)] else [])"
  by (simp add: fireIfSet_def)

lemma invalidReports_Nil [simp]: "invalidReports E [] = []"
  by (simp add: invalidReports_def)

lemma invalidReports_append:
  "invalidReports E (xs @ ys) = invalidReports E xs @ invalidReports E ys"
  by (simp add: invalidReports_def)

lemma actionsFired_invalidReports [simp]: "actionsFired (invalidReports E ts) = []"
  by (induction ts) (simp_all add: invalidReports_def)

lemma invalidReports_no_action: "list_all (\<lambda>x. \<not> isAction x) (invalidReports E ts)"
  by (induction ts) (simp_all add: invalidReports_def)

text \<open>The start loop passes over triggers that do not match, reporting the invalid ones.\<close>

lemma startLoop_skips:
  "\<forall>u\<in>set pre. \<not> matches E u cl \<Longrightarrow>
   startLoop E H n ex cl (pre @ ts) m =
     (case startLoop E H n ex cl ts m of (m', fx) \<Rightarrow> (m', invalidReports E pre @ fx))"
  by (induction pre) (auto simp: matches_def invalidReports_def split: option.splits prod.splits)

lemma startLoop_no_match:
  "\<forall>u\<in>set ts. \<not> matches E u cl \<Longrightarrow> startLoop E H n ex cl ts m = (m, invalidReports E ts)"
  using startLoop_skips[of ts E cl H n ex "[]" m] by simp

lemma startLoop_match:
  assumes "\<forall>u\<in>set pre. \<not> matches E u cl" and "matches E t cl"
  shows "startLoop E H n ex cl (pre @ t # post) m =
     (m(ident ex := newRegExp E (pattern t)),
      invalidReports E pre @ fireIfSet H n OnStart (onStart t))"
  using assms by (auto simp: startLoop_skips matches_def split: option.splits)

lemma firstMatch_split:
  "firstMatch E ts cl = Some t \<Longrightarrow>
   \<exists>pre post. ts = pre @ t # post \<and> (\<forall>u\<in>set pre. \<not> matches E u cl) \<and> matches E t cl"
  unfolding firstMatch_def
proof (induction ts)
  case Nil
  then show ?case by simp
next
  case (Cons a ts)
  show ?case
  proof (cases "matches E a cl")
    case True
    with Cons.prems have "a = t" by simp
    then show ?thesis using True by (intro exI[of _ "[]"] exI[of _ ts]) simp
  next
    case False
    with Cons.prems have "find (\<lambda>u. matches E u cl) ts = Some t" by simp
    from Cons.IH[OF this] obtain pre post where
      "ts = pre @ t # post" "\<forall>u\<in>set pre. \<not> matches E u cl" "matches E t cl" by blast
    then show ?thesis using False by (intro exI[of _ "a # pre"] exI[of _ post]) simp
  qed
qed

text \<open>
  With a consistent engine the end loop finds, for the regular expression of the first
  matching trigger, that very trigger: an earlier trigger with the same
  \<^verbatim>\<open>toString()\<close> would have matched as well.
\<close>

lemma endLoop_finds:
  assumes "consistent E"
    and "\<forall>u\<in>set pre. \<not> matches E u cl" and "newRegExp E (pattern t) = Some r" and "test E r cl"
  shows "endLoop E H n r (pre @ t # post) = fireIfSet H n OnEnd (onEnd t)"
  using assms(2)
proof (induction pre)
  case Nil
  then show ?case using assms(3) by simp
next
  case (Cons u pre)
  then have nm: "\<not> matches E u cl" and rest: "\<forall>u\<in>set pre. \<not> matches E u cl" by simp_all
  show ?case
  proof (cases "newRegExp E (pattern u)")
    case None
    then show ?thesis using Cons.IH[OF rest] by simp
  next
    case (Some ru)
    with nm have "\<not> test E ru cl" by (simp add: matches_def)
    then have "toString E ru \<noteq> toString E r"
      using assms(1,3,4) Some unfolding consistent_def by blast
    then show ?thesis using Some Cons.IH[OF rest] by simp
  qed
qed

text \<open>Events of other executions leave the entry of an execution alone.\<close>

lemma startLoop_other: "ident ex \<noteq> k \<Longrightarrow> fst (startLoop E H n ex cl ts m) k = m k"
  by (induction ts) (auto split: option.splits prod.splits)

lemma handleStart_other:
  "ident ex \<noteq> k \<Longrightarrow> fst (handleTerminalCommandStart E H c ex m) k = m k"
  by (simp add: handleTerminalCommandStart_def Let_def startLoop_other)

lemma handleEnd_other:
  "ident ex \<noteq> k \<Longrightarrow> fst (handleTerminalCommandEnd E H c ex m) k = m k"
  by (simp add: handleTerminalCommandEnd_def split: option.splits)

lemma step_other: "ident (executionOf ev) \<noteq> k \<Longrightarrow> fst (step E H ev m) k = m k"
  by (cases ev) (simp_all add: handleStart_other handleEnd_other)

lemma run_state: "fst (run E H (ev # evs) m) = fst (run E H evs (fst (step E H ev m)))"
  by (simp split: prod.splits)

lemma run_other:
  "\<forall>ev\<in>set evs. ident (executionOf ev) \<noteq> k \<Longrightarrow> fst (run E H evs m) k = m k"
proof (induction evs arbitrary: m)
  case Nil
  then show ?case by simp
next
  case (Cons ev evs)
  have "fst (step E H ev m) k = m k" using step_other[of ev k E H m] Cons.prems by simp
  moreover have "fst (run E H evs (fst (step E H ev m))) k = fst (step E H ev m) k"
    using Cons by simp
  ultimately show ?case by (simp only: run_state)
qed

text \<open>
  A start that matches, any events of other executions, then the end: the end handler
  fires the \<^verbatim>\<open>onEnd\<close> of the trigger that matched.
\<close>

lemma start_then_end:
  assumes "consistent E"
    and "trim (commandLine ex) \<noteq> []"
    and "firstMatch E (triggers config) (trim (commandLine ex)) = Some t"
    and "\<forall>ev\<in>set between. ident (executionOf ev) \<noteq> ident ex"
  shows "\<exists>r pre. newRegExp E (pattern t) = Some r \<and>
     handleTerminalCommandStart E H config ex m =
       (m(ident ex \<mapsto> r),
        invalidReports E pre @ fireIfSet H (showNotification config) OnStart (onStart t)) \<and>
     snd (handleTerminalCommandEnd E H config ex
            (fst (run E H between (fst (handleTerminalCommandStart E H config ex m))))) =
       fireIfSet H (showNotification config) OnEnd (onEnd t)"
proof -
  let ?cl = "trim (commandLine ex)"
  from firstMatch_split[OF assms(3)] obtain pre post where
    ts: "triggers config = pre @ t # post" and pre: "\<forall>u\<in>set pre. \<not> matches E u ?cl"
    and t: "matches E t ?cl" by blast
  from t obtain r where r: "newRegExp E (pattern t) = Some r" "test E r ?cl"
    by (auto simp: matches_def split: option.splits)
  have start: "handleTerminalCommandStart E H config ex m =
      (m(ident ex \<mapsto> r),
       invalidReports E pre @ fireIfSet H (showNotification config) OnStart (onStart t))"
    using assms(2) r(1) by (simp add: handleTerminalCommandStart_def ts startLoop_match[OF pre t])
  have "fst (run E H between (m(ident ex \<mapsto> r))) (ident ex) = Some r"
    using run_other[OF assms(4), of E H "m(ident ex \<mapsto> r)"] by simp
  then have "snd (handleTerminalCommandEnd E H config ex
            (fst (run E H between (m(ident ex \<mapsto> r))))) =
       fireIfSet H (showNotification config) OnEnd (onEnd t)"
    by (simp add: handleTerminalCommandEnd_def ts endLoop_finds[OF assms(1) pre r])
  then show ?thesis using r(1) start by auto
qed

lemmas example_simps = buildTrigger_def testTrigger_def brokenTrigger_def anyTrigger_def
  lineStartTrigger_def buildAndTest_def brokenFirst_def matchAnything_def makeTest_def
  listFiles_def blankLine_def exampleHost_def

lemmas handler_simps = handleTerminalCommandStart_def handleTerminalCommandEnd_def
  fireIfSet_def fire_def executeAction_def settle_def matches_def firstMatch_def
  invalidReports_def

text \<open>The fragment of the regular expressions is consistent.\<close>

lemma literal_paren: "\<not> list_all isLiteralChar (literalBody (js ''(?:)''))"
  by (simp add: js_def literalBody_def anchoredEnd_def afterCaret_def anchoredStart_def
      isLiteralChar_def CARET_def DOLLAR_def)

lemma literal_toString_inj:
  assumes "list_all isLiteralChar (literalBody p)" and "list_all isLiteralChar (literalBody q)"
    and "toString literalEngine p = toString literalEngine q"
  shows "p = q"
proof -
  have eq: "(if p = [] then js ''(?:)'' else p) = (if q = [] then js ''(?:)'' else q)"
    using assms(3) by (simp add: literalEngine_def js_def)
  show ?thesis
  proof (cases "p = []")
    case True
    show ?thesis
    proof (cases "q = []")
      case True
      with \<open>p = []\<close> show ?thesis by simp
    next
      case False
      with True eq have "q = js ''(?:)''" by simp
      with assms(2) literal_paren show ?thesis by simp
    qed
  next
    case False
    show ?thesis
    proof (cases "q = []")
      case True
      with False eq have "p = js ''(?:)''" by simp
      with assms(1) literal_paren show ?thesis by simp
    next
      case F: False
      with False eq show ?thesis by simp
    qed
  qed
qed

lemma consistent_literalEngine: "consistent literalEngine"
  unfolding consistent_def
proof (intro allI impI)
  fix p q r r' s
  assume a: "newRegExp literalEngine p = Some r" "newRegExp literalEngine q = Some r'"
    "toString literalEngine r = toString literalEngine r'"
  from a(1) have p: "r = p" "list_all isLiteralChar (literalBody p)"
    by (auto simp: literalEngine_def split: if_splits)
  from a(2) have q: "r' = q" "list_all isLiteralChar (literalBody q)"
    by (auto simp: literalEngine_def split: if_splits)
  from literal_toString_inj[OF p(2) q(2)] a(3) p(1) q(1) have "r = r'" by simp
  then show "test literalEngine r s = test literalEngine r' s" by simp
qed

section \<open>Start and end of one execution\<close>

text \<open>
  C1, as stated, fails when the settings change between the start and the end of an
  execution: the end handler reads the settings anew and looks for a trigger with the
  recorded pattern. \<^verbatim>\<open>make test\<close> starts while \<open>buildTrigger\<close> is the first
  match; before it ends another trigger with the pattern \<^verbatim>\<open>make\<close> is put in
  front; at the end the \<^verbatim>\<open>onEnd\<close> of that other trigger fires, and the
  \<^verbatim>\<open>onEnd\<close> of the trigger that matched at the start does not.
\<close>

theorem edited_settings_counterexample:
  "firstMatch literalEngine (triggers buildAndTest) (trim (commandLine makeTest)) =
     Some buildTrigger \<and>
   onEnd buildTrigger = Some (js ''build.done'') \<and>
   handleTerminalCommandStart literalEngine exampleHost buildAndTest makeTest Map.empty =
     (Map.empty(7 \<mapsto> js ''make''),
      [ExecuteAction (js ''build.begin'') OnStart, ExecuteCommand (js ''build.begin''),
       ShowTemporaryNotification OnStart (js ''build.begin'')]) \<and>
   handleTerminalCommandEnd literalEngine exampleHost editedSettings makeTest
       (Map.empty(7 \<mapsto> js ''make'')) =
     (Map.empty,
      [ExecuteAction (js ''other.done'') OnEnd, ExecuteCommand (js ''other.done''),
       ShowTemporaryNotification OnEnd (js ''other.done'')])"
  by (simp add: example_simps otherMakeTrigger_def editedSettings_def handler_simps
      string_simps literal_simps)

text \<open>
  C1, amended. Let the start event of an execution match a configured trigger: the trimmed command
  line is not empty and \<open>trigger\<close> is the first trigger in configuration order whose pattern
  compiles and tests true, which is the one the start handler stops at and whose regular
  expression it records. Let any events of other executions follow, and then the end event
  of this execution, under the same configuration. Then the effects of the end handler are
  exactly those of firing the \<^verbatim>\<open>onEnd\<close> of that trigger (nothing when it has none):
  the one call of \<^verbatim>\<open>executeAction\<close> it makes is for that action, and no other
  trigger's. The engine is assumed consistent, as ECMAScript's is.
\<close>

theorem onEnd_of_start_trigger:
  assumes "consistent E"
    and "trim (commandLine ex) \<noteq> []"
    and "firstMatch E (triggers config) (trim (commandLine ex)) = Some trigger"
    and "\<forall>ev\<in>set between. ident (executionOf ev) \<noteq> ident ex"
  shows "newRegExp E (pattern trigger) \<noteq> None \<and>
     fst (handleTerminalCommandStart E H config ex m) (ident ex) = newRegExp E (pattern trigger) \<and>
     snd (handleTerminalCommandEnd E H config ex
            (fst (run E H between (fst (handleTerminalCommandStart E H config ex m))))) =
       fireIfSet H (showNotification config) OnEnd (onEnd trigger) \<and>
     actionsFired (snd (handleTerminalCommandEnd E H config ex
            (fst (run E H between (fst (handleTerminalCommandStart E H config ex m)))))) =
       (if truthyAction (onEnd trigger) then [(the (onEnd trigger), OnEnd)] else [])"
proof -
  from start_then_end[OF assms, of H m] obtain r pre where
    "newRegExp E (pattern trigger) = Some r"
    "handleTerminalCommandStart E H config ex m =
       (m(ident ex \<mapsto> r),
        invalidReports E pre @ fireIfSet H (showNotification config) OnStart (onStart trigger))"
    "snd (handleTerminalCommandEnd E H config ex
            (fst (run E H between (fst (handleTerminalCommandStart E H config ex m))))) =
       fireIfSet H (showNotification config) OnEnd (onEnd trigger)"
    by blast
  then show ?thesis by (simp add: actionsFired_fireIfSet)
qed

theorem onEnd_of_start_trigger_witness:
  "consistent literalEngine \<and>
   firstMatch literalEngine (triggers buildAndTest) (trim (commandLine makeTest)) =
     Some buildTrigger \<and>
   snd (handleTerminalCommandEnd literalEngine exampleHost buildAndTest makeTest
          (fst (run literalEngine exampleHost
                  [Started buildAndTest listFiles, Ended buildAndTest listFiles]
                  (fst (handleTerminalCommandStart literalEngine exampleHost buildAndTest
                          makeTest Map.empty))))) =
     [ExecuteAction (js ''build.done'') OnEnd, ExecuteCommand (js ''build.done''),
      ShowTemporaryNotification OnEnd (js ''build.done'')]"
proof -
  have h2: "trim (commandLine makeTest) \<noteq> []"
    by (simp add: example_simps string_simps)
  have h3: "firstMatch literalEngine (triggers buildAndTest) (trim (commandLine makeTest)) =
      Some buildTrigger"
    by (simp add: example_simps handler_simps string_simps literal_simps)
  have h4: "\<forall>ev\<in>set [Started buildAndTest listFiles, Ended buildAndTest listFiles].
      ident (executionOf ev) \<noteq> ident makeTest"
    by (simp add: example_simps)
  have fired: "fireIfSet exampleHost (showNotification buildAndTest) OnEnd (onEnd buildTrigger) =
      [ExecuteAction (js ''build.done'') OnEnd, ExecuteCommand (js ''build.done''),
       ShowTemporaryNotification OnEnd (js ''build.done'')]"
    by (simp add: example_simps handler_simps string_simps)
  show ?thesis
    using onEnd_of_start_trigger[OF consistent_literalEngine h2 h3 h4, of exampleHost Map.empty]
      consistent_literalEngine h3 fired
    by simp
qed

text \<open>
  C2, as stated, fails for a trigger that matches but is not the first to match: the
  command line \<^verbatim>\<open>make test\<close> matches the pattern \<^verbatim>\<open>test\<close> of the second
  trigger, whose \<^verbatim>\<open>onStart\<close> and \<^verbatim>\<open>onEnd\<close> are set, and neither is invoked;
  the handlers fire the actions of the first trigger only.
\<close>

theorem later_match_counterexample:
  "matches literalEngine testTrigger (trim (commandLine makeTest)) \<and>
   onStart testTrigger = Some (js ''tests.begin'') \<and>
   onEnd testTrigger = Some (js ''tests.done'') \<and>
   handleTerminalCommandStart literalEngine exampleHost buildAndTest makeTest Map.empty =
     (Map.empty(7 \<mapsto> js ''make''),
      [ExecuteAction (js ''build.begin'') OnStart, ExecuteCommand (js ''build.begin''),
       ShowTemporaryNotification OnStart (js ''build.begin'')]) \<and>
   handleTerminalCommandEnd literalEngine exampleHost buildAndTest makeTest
       (Map.empty(7 \<mapsto> js ''make'')) =
     (Map.empty,
      [ExecuteAction (js ''build.done'') OnEnd, ExecuteCommand (js ''build.done''),
       ShowTemporaryNotification OnEnd (js ''build.done'')])"
  by (simp add: example_simps handler_simps string_simps literal_simps)

text \<open>
  C2, amended. For every execution whose trimmed command line is not empty, the first
  trigger in configuration order whose pattern compiles and matches it has its
  \<^verbatim>\<open>onStart\<close> action (if set and not empty) invoked when the execution starts, and no
  other action is invoked then; and its \<^verbatim>\<open>onEnd\<close> action (if set and not empty)
  is invoked when that execution ends under the same configuration, and no other.
\<close>

theorem first_matching_trigger_fires:
  assumes "consistent E"
    and "trim (commandLine ex) \<noteq> []"
    and "firstMatch E (triggers config) (trim (commandLine ex)) = Some trigger"
    and "\<forall>ev\<in>set between. ident (executionOf ev) \<noteq> ident ex"
  shows "actionsFired (snd (handleTerminalCommandStart E H config ex m)) =
       (if truthyAction (onStart trigger) then [(the (onStart trigger), OnStart)] else []) \<and>
     actionsFired (snd (handleTerminalCommandEnd E H config ex
            (fst (run E H between (fst (handleTerminalCommandStart E H config ex m)))))) =
       (if truthyAction (onEnd trigger) then [(the (onEnd trigger), OnEnd)] else [])"
proof -
  from start_then_end[OF assms, of H m] obtain r pre where
    "handleTerminalCommandStart E H config ex m =
       (m(ident ex \<mapsto> r),
        invalidReports E pre @ fireIfSet H (showNotification config) OnStart (onStart trigger))"
    "snd (handleTerminalCommandEnd E H config ex
            (fst (run E H between (fst (handleTerminalCommandStart E H config ex m))))) =
       fireIfSet H (showNotification config) OnEnd (onEnd trigger)"
    by blast
  then show ?thesis by (simp add: actionsFired_fireIfSet)
qed

theorem first_matching_trigger_fires_witness:
  "firstMatch literalEngine (triggers brokenFirst) (trim (commandLine makeTest)) =
     Some buildTrigger \<and>
   actionsFired (snd (handleTerminalCommandStart literalEngine exampleHost brokenFirst makeTest
     Map.empty)) = [(js ''build.begin'', OnStart)] \<and>
   actionsFired (snd (handleTerminalCommandEnd literalEngine exampleHost brokenFirst makeTest
     (fst (run literalEngine exampleHost []
        (fst (handleTerminalCommandStart literalEngine exampleHost brokenFirst makeTest
           Map.empty)))))) = [(js ''build.done'', OnEnd)]"
proof -
  have h2: "trim (commandLine makeTest) \<noteq> []"
    by (simp add: example_simps string_simps)
  have h3: "firstMatch literalEngine (triggers brokenFirst) (trim (commandLine makeTest)) =
      Some buildTrigger"
    by (simp add: example_simps handler_simps string_simps literal_simps)
  have h4: "\<forall>ev\<in>set []. ident (executionOf ev) \<noteq> ident makeTest"
    by simp
  show ?thesis
    using first_matching_trigger_fires[OF consistent_literalEngine h2 h3 h4,
        of exampleHost Map.empty] h3
    by (simp add: buildTrigger_def js_def)
qed

section \<open>Several matching triggers, none, and invalid patterns\<close>

text \<open>
  C5, as stated, fails on a command line that is blank: trimmed it is the empty string,
  which matches the patterns of both triggers, and yet the first of them neither fires its
  \<^verbatim>\<open>onStart\<close> nor is recorded, because the start handler returns before its loop.
\<close>

theorem blank_line_match_counterexample:
  "matches literalEngine anyTrigger (trim (commandLine blankLine)) \<and>
   matches literalEngine lineStartTrigger (trim (commandLine blankLine)) \<and>
   onStart anyTrigger = Some (js ''any.begin'') \<and>
   handleTerminalCommandStart literalEngine exampleHost matchAnything blankLine Map.empty =
     (Map.empty, [])"
  by (simp add: example_simps handler_simps string_simps literal_simps)

text \<open>
  C5, amended. For every starting command whose trimmed command line is not empty and
  matches the patterns of more than one configured trigger, only the first matching
  trigger in configuration order fires its \<^verbatim>\<open>onStart\<close> action and is recorded for
  \<^verbatim>\<open>onEnd\<close> correlation; every later trigger does nothing for that execution: the
  start handler gives the same result as if the later triggers were not configured.
  Before the first match only invalid patterns are reported.
\<close>

theorem only_first_match_fires:
  assumes "trim (commandLine ex) \<noteq> []"
    and "\<forall>u\<in>set earlier. \<not> matches E u (trim (commandLine ex))"
    and "matches E trigger (trim (commandLine ex))"
  shows "handleTerminalCommandStart E H (config\<lparr>triggers := earlier @ trigger # later\<rparr>) ex m =
       (m(ident ex := newRegExp E (pattern trigger)),
        invalidReports E earlier @
        fireIfSet H (showNotification config) OnStart (onStart trigger)) \<and>
     newRegExp E (pattern trigger) \<noteq> None \<and>
     actionsFired (snd (handleTerminalCommandStart E H
         (config\<lparr>triggers := earlier @ trigger # later\<rparr>) ex m)) =
       (if truthyAction (onStart trigger) then [(the (onStart trigger), OnStart)] else []) \<and>
     handleTerminalCommandStart E H (config\<lparr>triggers := earlier @ trigger # later\<rparr>) ex m =
       handleTerminalCommandStart E H (config\<lparr>triggers := earlier @ [trigger]\<rparr>) ex m"
proof -
  have start: "handleTerminalCommandStart E H (config\<lparr>triggers := earlier @ trigger # post\<rparr>) ex m =
       (m(ident ex := newRegExp E (pattern trigger)),
        invalidReports E earlier @
        fireIfSet H (showNotification config) OnStart (onStart trigger))" for post
    using assms(1) by (simp add: handleTerminalCommandStart_def startLoop_match[OF assms(2,3)])
  have "newRegExp E (pattern trigger) \<noteq> None"
    using assms(3) by (auto simp: matches_def split: option.splits)
  then show ?thesis
    using start[of later] start[of "[]"] by (simp add: actionsFired_fireIfSet)
qed

theorem only_first_match_fires_witness:
  "matches literalEngine buildTrigger (trim (commandLine makeTest)) \<and>
   matches literalEngine testTrigger (trim (commandLine makeTest)) \<and>
   handleTerminalCommandStart literalEngine exampleHost
       (brokenFirst\<lparr>triggers := [brokenTrigger] @ buildTrigger # [testTrigger]\<rparr>) makeTest
       Map.empty =
     (Map.empty(7 \<mapsto> js ''make''),
      [ShowErrorMessage (InvalidRegexPattern (js ''('')),
       ExecuteAction (js ''build.begin'') OnStart, ExecuteCommand (js ''build.begin'')])"
proof -
  have h1: "trim (commandLine makeTest) \<noteq> []"
    by (simp add: example_simps string_simps)
  have h2: "\<forall>u\<in>set [brokenTrigger]. \<not> matches literalEngine u (trim (commandLine makeTest))"
    by (simp add: example_simps handler_simps string_simps literal_simps)
  have h3: "matches literalEngine buildTrigger (trim (commandLine makeTest))"
    by (simp add: example_simps handler_simps string_simps literal_simps)
  have h4: "matches literalEngine testTrigger (trim (commandLine makeTest))"
    by (simp add: example_simps handler_simps string_simps literal_simps)
  have new: "newRegExp literalEngine (pattern buildTrigger) = Some (js ''make'')"
    by (simp add: example_simps string_simps literal_simps)
  have fx: "invalidReports literalEngine [brokenTrigger] @
      fireIfSet exampleHost (showNotification brokenFirst) OnStart (onStart buildTrigger) =
      [ShowErrorMessage (InvalidRegexPattern (js ''('')),
       ExecuteAction (js ''build.begin'') OnStart, ExecuteCommand (js ''build.begin'')]"
    by (simp add: example_simps handler_simps string_simps literal_simps)
  have k: "ident makeTest = 7" by (simp add: makeTest_def)
  show ?thesis
    using only_first_match_fires[OF h1 h2 h3, where H = exampleHost and config = brokenFirst
        and later = "[testTrigger]" and m = Map.empty]
      h3 h4
    by (simp only: new fx k)
qed

text \<open>
  C6. In a run of the extension, take an execution whose start is its first event and
  whose trimmed command line matches no configured trigger's pattern. Its start handler
  executes no action (it only reports the patterns that do not compile, and nothing at
  all on a blank command line) and leaves the map of active executions unchanged; and,
  whatever events of other executions come in between and whatever the configuration is
  by then, its end handler has no effect and leaves the map unchanged.
\<close>

theorem unmatched_execution_inert:
  assumes "\<forall>t\<in>set (triggers config). \<not> matches E t (trim (commandLine ex))"
    and "\<forall>ev\<in>set (before @ between). ident (executionOf ev) \<noteq> ident ex"
  shows "handleTerminalCommandStart E H config ex (fst (run E H before Map.empty)) =
       (fst (run E H before Map.empty),
        if trim (commandLine ex) = [] then [] else invalidReports E (triggers config)) \<and>
     list_all (\<lambda>x. \<not> isAction x)
       (snd (handleTerminalCommandStart E H config ex (fst (run E H before Map.empty)))) \<and>
     handleTerminalCommandEnd E H config' ex
         (fst (run E H between (fst (run E H before Map.empty)))) =
       (fst (run E H between (fst (run E H before Map.empty))), [])"
proof -
  let ?m1 = "fst (run E H before Map.empty)"
  let ?m2 = "fst (run E H between ?m1)"
  have start: "handleTerminalCommandStart E H config ex ?m1 =
       (?m1, if trim (commandLine ex) = [] then [] else invalidReports E (triggers config))"
    by (simp add: handleTerminalCommandStart_def startLoop_no_match[OF assms(1)])
  have "?m1 (ident ex) = None"
    using run_other[of before "ident ex" E H Map.empty] assms(2) by simp
  then have "?m2 (ident ex) = None"
    using run_other[of between "ident ex" E H ?m1] assms(2) by simp
  then have "handleTerminalCommandEnd E H config' ex ?m2 = (?m2, [])"
    by (simp add: handleTerminalCommandEnd_def)
  then show ?thesis using start by (simp add: invalidReports_no_action)
qed

theorem unmatched_execution_inert_witness:
  "handleTerminalCommandStart literalEngine exampleHost brokenFirst listFiles
       (fst (run literalEngine exampleHost [Started buildAndTest makeTest] Map.empty)) =
     (fst (run literalEngine exampleHost [Started buildAndTest makeTest] Map.empty),
      [ShowErrorMessage (InvalidRegexPattern (js ''(''))]) \<and>
   handleTerminalCommandEnd literalEngine exampleHost buildAndTest listFiles
       (fst (run literalEngine exampleHost [Ended buildAndTest makeTest]
          (fst (run literalEngine exampleHost [Started buildAndTest makeTest] Map.empty)))) =
     (fst (run literalEngine exampleHost [Ended buildAndTest makeTest]
          (fst (run literalEngine exampleHost [Started buildAndTest makeTest] Map.empty))), [])"
proof -
  have h1: "\<forall>t\<in>set (triggers brokenFirst).
      \<not> matches literalEngine t (trim (commandLine listFiles))"
    by (simp add: example_simps handler_simps string_simps literal_simps)
  have h2: "\<forall>ev\<in>set ([Started buildAndTest makeTest] @ [Ended buildAndTest makeTest]).
      ident (executionOf ev) \<noteq> ident listFiles"
    by (simp add: example_simps)
  have cl: "trim (commandLine listFiles) \<noteq> []"
    by (simp add: example_simps string_simps)
  have reports: "invalidReports literalEngine (triggers brokenFirst) =
      [ShowErrorMessage (InvalidRegexPattern (js ''(''))]"
    by (simp add: example_simps handler_simps string_simps literal_simps)
  show ?thesis
    using unmatched_execution_inert[OF h1 h2, where H = exampleHost and config' = buildAndTest] cl reports
    by simp
qed

text \<open>
  C9, as stated, fails for an invalid pattern that the loop does not come to: with the
  triggers \<^verbatim>\<open>make\<close> and \<^verbatim>\<open>(\<close> in this order, \<^verbatim>\<open>make test\<close>
  matches the first, the loop breaks there, and the invalid pattern of the second is
  neither compiled nor reported.
\<close>

theorem unreached_pattern_counterexample:
  "newRegExp literalEngine (pattern brokenTrigger) = None \<and>
   triggers brokenLast = [buildTrigger, brokenTrigger] \<and>
   handleTerminalCommandStart literalEngine exampleHost brokenLast makeTest Map.empty =
     (Map.empty(7 \<mapsto> js ''make''),
      [ExecuteAction (js ''build.begin'') OnStart, ExecuteCommand (js ''build.begin''),
       ShowTemporaryNotification OnStart (js ''build.begin'')])"
  by (simp add: example_simps brokenLast_def handler_simps string_simps literal_simps)

text \<open>
  C9, amended. When the start loop comes to a trigger whose pattern is not a valid regular
  expression (the command line is not blank and no earlier trigger matched), an error
  message naming the pattern is shown and the trigger is skipped: the handler goes on with
  the triggers after it exactly as it would if they were the whole configuration.
\<close>

theorem invalid_pattern_skipped:
  assumes "newRegExp E (pattern trigger) = None"
    and "trim (commandLine ex) \<noteq> []"
    and "\<forall>u\<in>set earlier. \<not> matches E u (trim (commandLine ex))"
  shows "handleTerminalCommandStart E H (config\<lparr>triggers := earlier @ trigger # later\<rparr>) ex m =
     (case handleTerminalCommandStart E H (config\<lparr>triggers := later\<rparr>) ex m of
        (m', fx) \<Rightarrow>
          (m', invalidReports E earlier @
               ShowErrorMessage (InvalidRegexPattern (pattern trigger)) # fx))"
  using assms(1,2)
  by (simp add: handleTerminalCommandStart_def startLoop_skips[OF assms(3)] split: prod.splits)

theorem invalid_pattern_skipped_witness:
  "newRegExp literalEngine (pattern brokenTrigger) = None \<and>
   handleTerminalCommandStart literalEngine exampleHost
       (buildAndTest\<lparr>triggers := [] @ brokenTrigger # [testTrigger]\<rparr>) makeTest Map.empty =
     (Map.empty(7 \<mapsto> js ''test''),
      [ShowErrorMessage (InvalidRegexPattern (js ''('')),
       ExecuteAction (js ''tests.begin'') OnStart, ExecuteCommand (js ''tests.begin''),
       ShowTemporaryNotification OnStart (js ''tests.begin'')])"
proof -
  have h1: "newRegExp literalEngine (pattern brokenTrigger) = None"
    by (simp add: example_simps string_simps literal_simps)
  have h2: "trim (commandLine makeTest) \<noteq> []"
    by (simp add: example_simps string_simps)
  have h3: "\<forall>u\<in>set []. \<not> matches literalEngine u (trim (commandLine makeTest))"
    by simp
  have rest: "handleTerminalCommandStart literalEngine exampleHost
       (buildAndTest\<lparr>triggers := [testTrigger]\<rparr>) makeTest Map.empty =
     (Map.empty(7 \<mapsto> js ''test''),
      [ExecuteAction (js ''tests.begin'') OnStart, ExecuteCommand (js ''tests.begin''),
       ShowTemporaryNotification OnStart (js ''tests.begin'')])"
    by (simp add: example_simps handler_simps string_simps literal_simps)
  have p: "pattern brokenTrigger = js ''(''" by (simp add: brokenTrigger_def)
  show ?thesis
    using invalid_pattern_skipped[OF h1 h2 h3, where H = exampleHost and config = buildAndTest
        and later = "[testTrigger]" and m = Map.empty]
      h1
    by (simp only: rest p) simp
qed

section \<open>The map of active executions along a run\<close>

lemma startLoop_entry:
  "fst (startLoop E H n ex cl ts m) k = Some r \<Longrightarrow>
   m k = Some r \<or>
   (ident ex = k \<and> list_ex (\<lambda>t. newRegExp E (pattern t) = Some r \<and> test E r cl) ts)"
  by (induction ts) (auto split: option.splits prod.splits if_splits)

lemma step_entry:
  "fst (step E H ev m) k = Some r \<Longrightarrow> m k = Some r \<or> startMatched E k r ev"
proof (cases ev)
  case (Started config ex)
  assume "fst (step E H ev m) k = Some r"
  then show ?thesis
    using Started startLoop_entry[of E H "showNotification config" ex "trim (commandLine ex)"
        "triggers config" m k r]
    by (auto simp: handleTerminalCommandStart_def Let_def split: if_splits)
next
  case (Ended config ex)
  assume "fst (step E H ev m) k = Some r"
  then show ?thesis
    using Ended by (auto simp: handleTerminalCommandEnd_def split: option.splits if_splits)
qed

lemma run_entry:
  "fst (run E H evs m) k = Some r \<Longrightarrow> m k = Some r \<or> list_ex (startMatched E k r) evs"
proof (induction evs arbitrary: m)
  case Nil
  then show ?case by simp
next
  case (Cons ev evs)
  from Cons.prems have "fst (run E H evs (fst (step E H ev m))) k = Some r"
    by (simp only: run_state)
  from Cons.IH[OF this] show ?case
    using step_entry[of E H ev m k r] by auto
qed

lemma handleEnd_removes: "fst (handleTerminalCommandEnd E H config ex m) (ident ex) = None"
  by (simp add: handleTerminalCommandEnd_def split: option.splits)

lemma handleEnd_absent:
  "m (ident ex) = None \<Longrightarrow> handleTerminalCommandEnd E H config ex m = (m, [])"
  by (simp add: handleTerminalCommandEnd_def)

lemma endLoop_fires_once:
  "length (filter (\<lambda>(a, ph). ph = OnEnd) (actionsFired (endLoop E H n r ts))) \<le> 1"
  by (induction ts) (auto simp: actionsFired_fireIfSet split: option.splits)

lemma run_log:
  "snd (run E H (ev # evs) m) =
     (ev, snd (step E H ev m)) # snd (run E H evs (fst (step E H ev m)))"
  by (simp split: prod.splits)

lemma step_count:
  "onEndFired k (ev, snd (step E H ev m)) + (if fst (step E H ev m) k = None then 0 else 1) \<le>
     (if isStartOf k ev then 1 else 0) + (if m k = None then 0 else 1)"
proof (cases ev)
  case (Started config ex)
  show ?thesis
  proof (cases "ident ex = k")
    case True
    then show ?thesis using Started by simp
  next
    case False
    then show ?thesis using Started handleStart_other[of ex k E H config m] by simp
  qed
next
  case (Ended config ex)
  show ?thesis
  proof (cases "ident ex = k")
    case False
    then show ?thesis using Ended handleEnd_other[of ex k E H config m] by simp
  next
    case True
    show ?thesis
    proof (cases "m k")
      case None
      then show ?thesis using Ended True by (simp add: handleTerminalCommandEnd_def)
    next
      case (Some r)
      then show ?thesis
        using Ended True endLoop_fires_once[of E H "showNotification config" r "triggers config"]
        by (simp add: handleTerminalCommandEnd_def)
    qed
  qed
qed

lemma run_count:
  "onEndFirings k (snd (run E H evs m)) + (if fst (run E H evs m) k = None then 0 else 1) \<le>
     startsOf k evs + (if m k = None then 0 else 1)"
proof (induction evs arbitrary: m)
  case Nil
  then show ?case by (simp add: onEndFirings_def startsOf_def)
next
  case (Cons ev evs)
  let ?m' = "fst (step E H ev m)"
  have a: "onEndFirings k (snd (run E H (ev # evs) m)) =
      onEndFired k (ev, snd (step E H ev m)) + onEndFirings k (snd (run E H evs ?m'))"
    by (simp only: run_log onEndFirings_def list.map sum_list.Cons)
  have b: "startsOf k (ev # evs) = (if isStartOf k ev then 1 else 0) + startsOf k evs"
    by (simp add: startsOf_def)
  have c: "fst (run E H (ev # evs) m) = fst (run E H evs ?m')"
    by (rule run_state)
  from Cons.IH[of ?m'] step_count[of k ev E H m] show ?case
    unfolding a b c by linarith
qed

text \<open>
  C7. In every run from the empty map, an execution that is in the map of active
  executions has a start event in the run at which a configured trigger matched (the map
  holds that trigger's regular expression). The map the end handler returns never holds
  the execution it was called for, whether or not an action fires, so a second end event
  for the same execution has no effect and changes nothing. Along a run the end events of
  an execution fire no more \<^verbatim>\<open>onEnd\<close> actions than the execution has start events:
  at most one for an execution that starts once.
\<close>

theorem active_executions_invariant:
  "(\<forall>j r. fst (run E H evs Map.empty) j = Some r \<longrightarrow> list_ex (startMatched E j r) evs) \<and>
   fst (handleTerminalCommandEnd E H config ex m) (ident ex) = None \<and>
   handleTerminalCommandEnd E H config' ex (fst (handleTerminalCommandEnd E H config ex m)) =
     (fst (handleTerminalCommandEnd E H config ex m), []) \<and>
   onEndFirings k (snd (run E H evs Map.empty)) \<le> startsOf k evs \<and>
   (startsOf k evs \<le> 1 \<longrightarrow> onEndFirings k (snd (run E H evs Map.empty)) \<le> 1)"
proof -
  have inv: "\<forall>j r. fst (run E H evs Map.empty) j = Some r \<longrightarrow> list_ex (startMatched E j r) evs"
    using run_entry[of E H evs Map.empty] by auto
  have twice: "handleTerminalCommandEnd E H config' ex
      (fst (handleTerminalCommandEnd E H config ex m)) =
      (fst (handleTerminalCommandEnd E H config ex m), [])"
    by (rule handleEnd_absent) (rule handleEnd_removes)
  have count: "onEndFirings k (snd (run E H evs Map.empty)) \<le> startsOf k evs"
    using run_count[of k E H evs Map.empty] by simp
  show ?thesis using inv twice count by (simp add: handleEnd_removes)
qed

theorem active_executions_invariant_witness:
  "fst (run literalEngine exampleHost [Started buildAndTest makeTest] Map.empty) 7 =
     Some (js ''make'') \<and>
   list_ex (startMatched literalEngine 7 (js ''make'')) [Started buildAndTest makeTest] \<and>
   startsOf 7 [Started buildAndTest makeTest, Ended buildAndTest makeTest,
      Ended buildAndTest makeTest] = 1 \<and>
   onEndFirings 7 (snd (run literalEngine exampleHost
      [Started buildAndTest makeTest, Ended buildAndTest makeTest, Ended buildAndTest makeTest]
      Map.empty)) \<le> 1"
proof -
  let ?evs = "[Started buildAndTest makeTest, Ended buildAndTest makeTest,
      Ended buildAndTest makeTest]"
  have entry: "fst (run literalEngine exampleHost [Started buildAndTest makeTest] Map.empty) 7 =
      Some (js ''make'')"
    by (simp add: example_simps handler_simps string_simps literal_simps)
  have starts: "startsOf 7 ?evs = 1"
    by (simp add: startsOf_def example_simps)
  from active_executions_invariant[of literalEngine exampleHost "[Started buildAndTest makeTest]"]
    entry
  have matched: "list_ex (startMatched literalEngine 7 (js ''make''))
      [Started buildAndTest makeTest]"
    by blast
  from active_executions_invariant[of literalEngine exampleHost ?evs _ _ _ _ 7] starts
  have "onEndFirings 7 (snd (run literalEngine exampleHost ?evs Map.empty)) \<le> 1"
    by simp
  then show ?thesis using entry matched starts by simp
qed

section \<open>The Shell Integration warning\<close>

text \<open>
  Once the flag is recorded, no activation shows the warning, whatever it finds.
\<close>

lemma recorded_flag_silences: "activations envs True = (True, [])"
  by (induction envs) (simp_all add: checkShellIntegration_def)

text \<open>
  When terminals exist at the check, the activation records the flag, shown or not.
\<close>

lemma check_with_terminals_records:
  "terminalsAtCheck env \<noteq> [] \<Longrightarrow> fst (checkShellIntegration env shown)"
  by (simp add: checkShellIntegration_def Let_def)

text \<open>
  C10. The warning is meant to be shown at most once. The code shows it twice in two
  activations that each find no terminal at the check and then see a terminal without
  shell integration opened, the user dismissing the warning: the listener path shows the
  warning and never records the flag, so the flag is still unset after both activations.
\<close>

theorem warning_shown_twice:
  "activations [noTerminalYet, noTerminalYet] False =
     (False, [ShowWarningMessage, ShowWarningMessage])"
  by (simp add: noTerminalYet_def checkShellIntegration_def showShellIntegrationWarning_def)

end
